theory Spec2Isabelle
  imports Complex_Main "HOL-Library.AList"
begin

section \<open>JavaScript numbers\<close>

text \<open>
  The market code computes with JavaScript numbers. A finite number is modelled as an exact
  rational (the rounding error of binary floating point is not modelled); the three
  non-finite values that a division by a zero pool produces are kept, with the arithmetic
  IEEE 754 gives them. A pool starts at 1000 and only changes by adding or subtracting a
  finite amount, so a pool that is zero is the positive zero and \<open>x / 0\<close> takes the sign
  of \<open>x\<close>.
\<close>

datatype jsnum = Num rat | PosInf | NegInf | NaN

definition js_inf :: "rat \<Rightarrow> jsnum" where
  "js_inf s = (if 0 < s then PosInf else if s < 0 then NegInf else NaN)"

fun js_neg :: "jsnum \<Rightarrow> jsnum" where
  "js_neg (Num a) = Num (- a)"
| "js_neg PosInf = NegInf"
| "js_neg NegInf = PosInf"
| "js_neg NaN = NaN"

fun js_add :: "jsnum \<Rightarrow> jsnum \<Rightarrow> jsnum" where
  "js_add (Num a) (Num b) = Num (a + b)"
| "js_add NaN _ = NaN"
| "js_add _ NaN = NaN"
| "js_add PosInf NegInf = NaN"
| "js_add NegInf PosInf = NaN"
| "js_add PosInf _ = PosInf"
| "js_add _ PosInf = PosInf"
| "js_add NegInf _ = NegInf"
| "js_add _ NegInf = NegInf"

definition js_sub :: "jsnum \<Rightarrow> jsnum \<Rightarrow> jsnum" where
  "js_sub a b = js_add a (js_neg b)"

fun js_mul :: "jsnum \<Rightarrow> jsnum \<Rightarrow> jsnum" where
  "js_mul (Num a) (Num b) = Num (a * b)"
| "js_mul NaN _ = NaN"
| "js_mul _ NaN = NaN"
| "js_mul (Num a) PosInf = js_inf a"
| "js_mul (Num a) NegInf = js_inf (- a)"
| "js_mul PosInf (Num b) = js_inf b"
| "js_mul NegInf (Num b) = js_inf (- b)"
| "js_mul PosInf PosInf = PosInf"
| "js_mul PosInf NegInf = NegInf"
| "js_mul NegInf PosInf = NegInf"
| "js_mul NegInf NegInf = PosInf"

fun js_div :: "jsnum \<Rightarrow> jsnum \<Rightarrow> jsnum" where
  "js_div (Num a) (Num b) = (if b = 0 then js_inf a else Num (a / b))"
| "js_div NaN _ = NaN"
| "js_div _ NaN = NaN"
| "js_div (Num a) PosInf = Num 0"
| "js_div (Num a) NegInf = Num 0"
| "js_div PosInf (Num b) = (if b < 0 then NegInf else PosInf)"
| "js_div NegInf (Num b) = (if b < 0 then PosInf else NegInf)"
| "js_div PosInf PosInf = NaN"
| "js_div PosInf NegInf = NaN"
| "js_div NegInf PosInf = NaN"
| "js_div NegInf NegInf = NaN"

text \<open>\<open>Math.round\<close>: the nearest integer, a half rounded towards plus infinity; a
  non-finite argument is returned as it is.\<close>

fun Math_round :: "jsnum \<Rightarrow> jsnum" where
  "Math_round (Num x) = Num (of_int \<lfloor>x + 1 / 2\<rfloor>)"
| "Math_round PosInf = PosInf"
| "Math_round NegInf = NegInf"
| "Math_round NaN = NaN"

text \<open>A missing property read as a number (\<open>undefined\<close> in arithmetic) is \<open>NaN\<close>.\<close>

fun to_number :: "jsnum option \<Rightarrow> jsnum" where
  "to_number None = NaN"
| "to_number (Some x) = x"

section \<open>Market Engine: \<open>contracts/market.js\<close>\<close>

datatype outcome = YES | NO

datatype status = OPEN | CLOSED | RESOLVED

datatype error =
    MarketNotOpen
  | InsufficientShares
  | MarketAlreadyClosed
  | UserNotFound
  | TypeError

text \<open>An object \<open>{ YES: a, NO: b }\<close> read and written with \<open>[outcome]\<close> is a function
  from outcomes to numbers. Share amounts and pools are finite numbers.\<close>

type_synonym shares = "outcome \<Rightarrow> rat"

definition no_shares :: shares where
  "no_shares = (\<lambda>_. 0)"

record market =
  marketID :: string
  question :: string
  kitID :: string
  deadline :: string
  createdBy :: string
  createdAt :: string
  outcomes :: shares
  positions :: "string \<rightharpoonup> shares"
  status :: status
  winningOutcome :: "outcome option"
  totalVolume :: jsnum

record transaction =
  tx_marketID :: string
  tx_userId :: string
  tx_outcome :: outcome
  tx_shares :: rat
  cost :: "jsnum option"
  payout :: "jsnum option"
  tx_timestamp :: string

text \<open>The constructor; \<open>now\<close> is the clock read of \<open>new Date().toISOString()\<close>.\<close>

definition PredictionMarket :: "string \<Rightarrow> string \<Rightarrow> string \<Rightarrow> string \<Rightarrow> string \<Rightarrow> string \<Rightarrow> market" where
  "PredictionMarket mid q kit dl creator now =
     \<lparr> marketID = mid, question = q, kitID = kit, deadline = dl, createdBy = creator,
       createdAt = now, outcomes = (\<lambda>_. 1000), positions = Map.empty, status = OPEN,
       winningOutcome = None, totalVolume = Num 0 \<rparr>"

text \<open>\<open>outcome === 'YES' ? 'NO' : 'YES'\<close>\<close>

definition other_outcome :: "outcome \<Rightarrow> outcome" where
  "other_outcome outcome = (if outcome = YES then NO else YES)"

definition calculatePrice :: "market \<Rightarrow> outcome \<Rightarrow> rat \<Rightarrow> jsnum" where
  "calculatePrice m outcome amount =
     (let currentPool = outcomes m outcome;
          otherPool = outcomes m (other_outcome outcome);
          price = js_mul (Num amount) (js_div (Num otherPool) (Num currentPool))
      in js_div (Math_round (js_mul price (Num 100))) (Num 100))"

text \<open>
  The operations below return the value or the thrown error together with the state as
  the call leaves it, so that a throw after a mutation is visible.
\<close>

definition PredictionMarket_buyShares ::
  "string \<Rightarrow> market \<Rightarrow> string \<Rightarrow> outcome \<Rightarrow> rat \<Rightarrow> (error + transaction) \<times> market" where
  "PredictionMarket_buyShares now m userId outcome amount =
     (if status m \<noteq> OPEN then (Inl MarketNotOpen, m)
      else
        let c = calculatePrice m outcome amount;
            m1 = m\<lparr> outcomes := (outcomes m)(outcome := outcomes m outcome - amount),
                    totalVolume := js_add (totalVolume m) c \<rparr>;
            pos = (case positions m1 userId of None \<Rightarrow> no_shares | Some p \<Rightarrow> p);
            m2 = m1\<lparr> positions := (positions m1)(userId \<mapsto> pos(outcome := pos outcome + amount)) \<rparr>
        in (Inr \<lparr> tx_marketID = marketID m, tx_userId = userId, tx_outcome = outcome,
                  tx_shares = amount, cost = Some c, payout = None, tx_timestamp = now \<rparr>, m2))"


definition resolve :: "market \<Rightarrow> outcome \<Rightarrow> (error + unit) \<times> market" where
  "resolve m actualOutcome =
     (if status m \<noteq> OPEN then (Inl MarketAlreadyClosed, m)
      else (Inr (), m\<lparr> winningOutcome := Some actualOutcome, status := RESOLVED \<rparr>))"



section \<open>Position Ledger: \<open>contracts/shares.js\<close>\<close>

text \<open>
  \<open>userBalances\<close> and \<open>userStats\<close> are two dictionaries keyed by the participant
  identifier, \<open>holdings\<close> a dictionary keyed by the market identifier. A dictionary is a
  map; a key that is absent reads as \<open>undefined\<close>, which is \<open>None\<close>. (Identifiers are
  ordinary keys: the names that every JavaScript object inherits, such as
  \<open>constructor\<close>, are outside this model.)
\<close>

record balance =
  credits :: jsnum
  holdings :: "string \<rightharpoonup> shares"

record stats =
  correctPredictions :: nat
  totalPredictions :: nat
  profit :: jsnum
  totalTrades :: nat

record share_manager =
  userBalances :: "string \<rightharpoonup> balance"
  userStats :: "string \<rightharpoonup> stats"

definition ShareManager :: share_manager where
  "ShareManager = \<lparr> userBalances = Map.empty, userStats = Map.empty \<rparr>"

definition initializeUser :: "share_manager \<Rightarrow> string \<Rightarrow> rat \<Rightarrow> share_manager" where
  "initializeUser sm userId initialCredits =
     (if userBalances sm userId = None then
        sm\<lparr> userBalances := (userBalances sm)(userId \<mapsto>
                \<lparr> credits = Num initialCredits, holdings = Map.empty \<rparr>),
            userStats := (userStats sm)(userId \<mapsto>
                \<lparr> correctPredictions = 0, totalPredictions = 0, profit = Num 0,
                  totalTrades = 0 \<rparr>) \<rparr>
      else sm)"

record balance_view =
  view_credits :: jsnum
  view_holdings :: "string \<rightharpoonup> shares"
  view_stats :: "stats option"

text \<open>\<open>getBalance\<close> has no throwing path: after \<open>initializeUser\<close> the entry exists. The
  \<open>None\<close> branch of the second lookup is never taken (lemma \<open>getBalance_total\<close>); it stands
  for the \<open>TypeError\<close> JavaScript would raise on \<open>undefined.credits\<close>.\<close>

definition getBalance :: "share_manager \<Rightarrow> string \<Rightarrow> (error + balance_view) \<times> share_manager" where
  "getBalance sm userId =
     (let sm1 = (if userBalances sm userId = None then initializeUser sm userId 10000 else sm)
      in case userBalances sm1 userId of
           None \<Rightarrow> (Inl TypeError, sm1)
         | Some b \<Rightarrow> (Inr \<lparr> view_credits = credits b, view_holdings = holdings b,
                           view_stats = userStats sm1 userId \<rparr>, sm1))"

definition ShareManager_buyShares ::
  "string \<Rightarrow> share_manager \<Rightarrow> string \<Rightarrow> market \<Rightarrow> outcome \<Rightarrow> rat
     \<Rightarrow> (error + transaction) \<times> share_manager \<times> market" where
  "ShareManager_buyShares now sm userId m outcome amount =
     (let sm1 = (if userBalances sm userId = None then initializeUser sm userId 10000 else sm)
      in (case PredictionMarket_buyShares now m userId outcome amount of
           (Inl e, m') \<Rightarrow> (Inl e, sm1, m')
         | (Inr t, m') \<Rightarrow>
             (case userBalances sm1 userId of
                None \<Rightarrow> (Inl TypeError, sm1, m')
              | Some b \<Rightarrow>
                  let b1 = b\<lparr> credits := js_sub (credits b) (to_number (cost t)) \<rparr>;
                      h = (case holdings b1 (marketID m') of None \<Rightarrow> no_shares | Some h \<Rightarrow> h);
                      b2 = b1\<lparr> holdings := (holdings b1)(marketID m' \<mapsto> h(outcome := h outcome + amount)) \<rparr>;
                      sm2 = sm1\<lparr> userBalances := (userBalances sm1)(userId \<mapsto> b2) \<rparr>
                  in (case userStats sm2 userId of
                        None \<Rightarrow> (Inl TypeError, sm2, m')
                      | Some s \<Rightarrow>
                          (Inr t, sm2\<lparr> userStats := (userStats sm2)(userId \<mapsto>
                                          s\<lparr> totalTrades := totalTrades s + 1 \<rparr>) \<rparr>, m')))))"


text \<open>
  \<open>resolvePosition\<close>: \<open>holdings[market.winningOutcome]\<close> is \<open>undefined\<close> while the market
  has no winning outcome, and \<open>undefined > 0\<close> is false; the losing side is then \<open>YES\<close>,
  since \<open>null === 'YES'\<close> is false. The increments throw when the statistics entry is
  missing; no mutation precedes either of them.
\<close>

definition resolvePosition :: "share_manager \<Rightarrow> string \<Rightarrow> market \<Rightarrow> (error + unit) \<times> share_manager" where
  "resolvePosition sm userId m =
     (case userBalances sm userId of
        None \<Rightarrow> (Inr (), sm)
      | Some b \<Rightarrow>
          (case holdings b (marketID m) of
             None \<Rightarrow> (Inr (), sm)
           | Some h \<Rightarrow>
               let winning = (case winningOutcome m of None \<Rightarrow> False | Some w \<Rightarrow> 0 < h w);
                   losingShares = h (if winningOutcome m = Some YES then NO else YES);
                   either = (winning \<or> 0 < losingShares)
               in if either \<and> userStats sm userId = None then (Inl TypeError, sm)
                  else
                    let st1 = (if winning
                               then map_option (\<lambda>s. s\<lparr> correctPredictions := correctPredictions s + 1 \<rparr>)
                                      (userStats sm userId)
                               else userStats sm userId);
                        st2 = (if either
                               then map_option (\<lambda>s. s\<lparr> totalPredictions := totalPredictions s + 1 \<rparr>) st1
                               else st1);
                        b' = b\<lparr> holdings := (holdings b)(marketID m := None) \<rparr>
                    in (Inr (), sm\<lparr> userBalances := (userBalances sm)(userId \<mapsto> b'),
                                    userStats := (userStats sm)(userId := st2) \<rparr>)))"

section \<open>Chain Engine: \<open>contracts/ledger.js\<close>\<close>

text \<open>
  A block is the object \<open>addBlock\<close> builds. The payload \<open>data\<close> is an object of any
  shape (type \<open>'d\<close>). Two functions of the runtime are parameters of the model:
  \<open>sha256\<close>, the hex digest \<open>crypto.createHash('sha256').update(s).digest('hex')\<close>, and
  \<open>stringify\<close>, which is \<open>JSON.stringify\<close> on payloads. A block written to a file and
  parsed again is taken to be the same block.
\<close>

record 'd block =
  index :: nat
  timestamp :: string
  data :: 'd
  previousHash :: string
  hash :: string

text \<open>The decimal digits of a block index, as string concatenation renders a number.\<close>

definition digit_char :: "nat \<Rightarrow> char" where
  "digit_char n = ''0123456789'' ! n"

fun show_nat :: "nat \<Rightarrow> string" where
  "show_nat n = (if n < 10 then [digit_char n] else show_nat (n div 10) @ [digit_char (n mod 10)])"

declare show_nat.simps [simp del]

definition calculateHash ::
  "(string \<Rightarrow> string) \<Rightarrow> ('d \<Rightarrow> string) \<Rightarrow> nat \<Rightarrow> string \<Rightarrow> 'd \<Rightarrow> string \<Rightarrow> string" where
  "calculateHash sha256 stringify i t d p = sha256 (show_nat i @ t @ stringify d @ p)"

text \<open>
  The Block Store is the directory \<open>ledger-data\<close>: the files \<open>block_<k>.json\<close>, each
  with its parsed content, in the order \<open>readdirSync\<close> lists them. \<open>writeFileSync\<close>
  replaces the content of an existing file and creates a missing one.
\<close>

type_synonym 'd store = "(nat \<times> 'd block) list"

definition writeBlockFile :: "'d block \<Rightarrow> 'd store \<Rightarrow> 'd store" where
  "writeBlockFile b files = AList.update (index b) b files"

definition latest_scan :: "'d store \<Rightarrow> int \<times> nat option" where
  "latest_scan files =
     fold (\<lambda>(k, _) (maxIndex, latestFile).
             if int k > maxIndex then (int k, Some k) else (maxIndex, latestFile))
          files (- 1, None)"

definition getLatestBlock :: "'d store \<Rightarrow> 'd block option" where
  "getLatestBlock files =
     (if length files = 0 then None
      else case snd (latest_scan files) of
             Some k \<Rightarrow> map_of files k
           | None \<Rightarrow> None)"

definition sentinel :: string where
  "sentinel = replicate 64 (CHR ''0'')"

text \<open>
  \<open>addBlock\<close> reads the clock twice: \<open>t1\<close> is the read stored as \<open>timestamp\<close>, \<open>t2\<close> the
  read given to \<open>calculateHash\<close>. (The broadcast to the peers that follows the write is a
  network effect and leaves the store as it is.)
\<close>

definition addBlock ::
  "(string \<Rightarrow> string) \<Rightarrow> ('d \<Rightarrow> string) \<Rightarrow> string \<Rightarrow> string \<Rightarrow> 'd \<Rightarrow> 'd store \<Rightarrow> 'd store" where
  "addBlock sha256 stringify t1 t2 d files =
     (let latestBlock = getLatestBlock files;
          i = (case latestBlock of Some l \<Rightarrow> index l + 1 | None \<Rightarrow> 0);
          prev = (case latestBlock of Some l \<Rightarrow> hash l | None \<Rightarrow> sentinel);
          newBlock = \<lparr> index = i, timestamp = t1, data = d, previousHash = prev,
                       hash = calculateHash sha256 stringify i t2 d prev \<rparr>
      in writeBlockFile newBlock files)"

definition getFullChain :: "'d store \<Rightarrow> 'd block list" where
  "getFullChain files = map snd (sort_key fst files)"

text \<open>\<open>clearLedger\<close> unlinks every block file, and the store holds nothing else.\<close>

definition clearLedger :: "'d store \<Rightarrow> 'd store" where
  "clearLedger files = []"

function validate_loop ::
  "(string \<Rightarrow> string) \<Rightarrow> ('d \<Rightarrow> string) \<Rightarrow> 'd block list \<Rightarrow> nat \<Rightarrow> bool" where
  "validate_loop sha256 stringify chain i =
     (if i < length chain then
        (let currentBlock = chain ! i;
             expectedHash = calculateHash sha256 stringify (index currentBlock)
                              (timestamp currentBlock) (data currentBlock) (previousHash currentBlock)
         in if hash currentBlock \<noteq> expectedHash then False
            else if i > 0 \<and> previousHash currentBlock \<noteq> hash (chain ! (i - 1)) then False
            else validate_loop sha256 stringify chain (i + 1))
      else True)"
  by pat_completeness auto
termination
  by (relation "measure (\<lambda>(sha256, stringify, chain, i). length chain - i)") auto

declare validate_loop.simps [simp del]

definition validateChain ::
  "(string \<Rightarrow> string) \<Rightarrow> ('d \<Rightarrow> string) \<Rightarrow> 'd block list \<Rightarrow> bool" where
  "validateChain sha256 stringify chain = validate_loop sha256 stringify chain 0"





definition replaceChain ::
  "(string \<Rightarrow> string) \<Rightarrow> ('d \<Rightarrow> string) \<Rightarrow> 'd block list \<Rightarrow> 'd store \<Rightarrow> bool \<times> 'd store" where
  "replaceChain sha256 stringify newChain files =
     (let currentChain = getFullChain files
      in if length newChain \<le> length currentChain then (False, files)
         else if \<not> validateChain sha256 stringify newChain then (False, files)
         else (True, fold writeBlockFile newChain (clearLedger files)))"

text \<open>
  \<open>saveReceivedBlock\<close> returns \<open>false\<close> from its \<open>catch\<close> as well; with parsed blocks in
  the store no statement of the \<open>try\<close> body throws.
\<close>

definition saveReceivedBlock ::
  "(string \<Rightarrow> string) \<Rightarrow> ('d \<Rightarrow> string) \<Rightarrow> 'd block \<Rightarrow> 'd store \<Rightarrow> bool \<times> 'd store" where
  "saveReceivedBlock sha256 stringify b files =
     (let expectedHash = calculateHash sha256 stringify (index b) (timestamp b) (data b)
                           (previousHash b)
      in if hash b \<noteq> expectedHash then (False, files)
         else case map_of files (index b) of
                Some existingBlock \<Rightarrow>
                  if hash existingBlock = hash b then (True, files) else (False, files)
              | None \<Rightarrow>
                  (case getLatestBlock files of
                     Some latestBlock \<Rightarrow>
                       if index b \<le> index latestBlock then (False, files)
                       else (True, writeBlockFile b files)
                   | None \<Rightarrow> (True, writeBlockFile b files)))"

text \<open>
  \<open>syncWithPeer\<close> of the \<open>Blockchain\<close> class: \<open>response\<close> is what the request to the
  peer's \<open>/ledger\<close> yields, \<open>None\<close> when the request fails or carries no list of blocks
  (the exception is caught and the result is \<open>false\<close>).
\<close>

definition syncWithPeer ::
  "(string \<Rightarrow> string) \<Rightarrow> ('d \<Rightarrow> string) \<Rightarrow> 'd block list option \<Rightarrow> 'd store \<Rightarrow> bool \<times> 'd store" where
  "syncWithPeer sha256 stringify response files =
     (case response of
        None \<Rightarrow> (False, files)
      | Some neighborChain \<Rightarrow>
          if validateChain sha256 stringify neighborChain
             \<and> length neighborChain \<ge> length (getFullChain files)
          then (True, fold writeBlockFile neighborChain (clearLedger files))
          else (False, files))"

section \<open>Fixtures\<close>

text \<open>The market that \<open>test-prediction.js\<close> creates.\<close>

definition test_market :: market where
  "test_market = PredictionMarket ''MKT-001'' ''Will Kit-001 arrive in Nairobi by Friday?''
     ''KIT-001'' ''2026-02-21T23:59:59Z'' ''admin'' ''2026-02-14T09:00:00.000Z''"

text \<open>A participant holds shares of an outcome in a market when the holdings entry for
  that market exists and its count for the outcome is positive.\<close>

definition held :: "share_manager \<Rightarrow> string \<Rightarrow> string \<Rightarrow> outcome \<Rightarrow> bool" where
  "held sm userId mid outcome =
     (case userBalances sm userId of
        None \<Rightarrow> False
      | Some b \<Rightarrow> (case holdings b mid of None \<Rightarrow> False | Some h \<Rightarrow> 0 < h outcome))"


text \<open>The trades of \<open>test-prediction.js\<close>: Alice buys 200 \<open>YES\<close> shares, Bob buys 300
  \<open>NO\<close> shares, and the market is resolved as \<open>YES\<close>.\<close>

definition two_users :: share_manager where
  "two_users = initializeUser (initializeUser ShareManager ''user_alice'' 10000) ''user_bob'' 10000"

definition after_alice :: "(error + transaction) \<times> share_manager \<times> market" where
  "after_alice = ShareManager_buyShares ''t1'' two_users ''user_alice'' test_market YES 200"

definition after_bob :: "(error + transaction) \<times> share_manager \<times> market" where
  "after_bob = ShareManager_buyShares ''t2'' (fst (snd after_alice)) ''user_bob''
                 (snd (snd after_alice)) NO 300"

definition traded :: share_manager where
  "traded = fst (snd after_bob)"

definition resolved_market :: market where
  "resolved_market = snd (resolve (snd (snd after_bob)) YES)"

section \<open>Chain Engine: what a sound block is\<close>

text \<open>The two checks that \<open>validateChain\<close> and \<open>detectTampering\<close> make on the block at
  position \<open>i\<close>: its own hash, and its link to the block before it.\<close>

definition hash_ok :: "(string \<Rightarrow> string) \<Rightarrow> ('d \<Rightarrow> string) \<Rightarrow> 'd block \<Rightarrow> bool" where
  "hash_ok sha256 stringify b =
     (hash b = calculateHash sha256 stringify (index b) (timestamp b) (data b) (previousHash b))"

definition link_ok :: "'d block list \<Rightarrow> nat \<Rightarrow> bool" where
  "link_ok chain i = (i = 0 \<or> previousHash (chain ! i) = hash (chain ! (i - 1)))"


text \<open>Every writer stores a block in the file named after the block's own \<open>index\<close>;
  a store is indexed when every file holds a block of the index in its name.\<close>

definition indexed_store :: "'d store \<Rightarrow> bool" where
  "indexed_store files = list_all (\<lambda>(k, b). index b = k) files"

text \<open>
  The store that a run of \<open>addBlock\<close> calls builds from the empty directory: the files
  \<open>block_0.json\<close>, ..., \<open>block_(n-1).json\<close> in this order, each holding the block of its
  index. \<open>next_block\<close> is the block that \<open>addBlock\<close> writes to such a store, and
  \<open>appendAll\<close> runs \<open>addBlock\<close> for a list of calls, each given with its two clock reads
  and its payload.
\<close>

definition appended :: "'d store \<Rightarrow> bool" where
  "appended files = (map fst files = [0 ..< length files] \<and> indexed_store files)"

definition next_block ::
  "(string \<Rightarrow> string) \<Rightarrow> ('d \<Rightarrow> string) \<Rightarrow> string \<Rightarrow> string \<Rightarrow> 'd \<Rightarrow> 'd store \<Rightarrow> 'd block" where
  "next_block sha256 stringify t1 t2 d files =
     (let prev = (if files = [] then sentinel else hash (snd (last files)))
      in \<lparr> index = length files, timestamp = t1, data = d, previousHash = prev,
           hash = calculateHash sha256 stringify (length files) t2 d prev \<rparr>)"

fun appendAll ::
  "(string \<Rightarrow> string) \<Rightarrow> ('d \<Rightarrow> string) \<Rightarrow> (string \<times> string \<times> 'd) list \<Rightarrow> 'd store \<Rightarrow> 'd store" where
  "appendAll sha256 stringify [] files = files"
| "appendAll sha256 stringify ((t1, t2, d) # rest) files =
     appendAll sha256 stringify rest (addBlock sha256 stringify t1 t2 d files)"

section \<open>Fixtures for the ledger\<close>

text \<open>
  The examples need a digest and a rendering of the payload. \<open>plain_digest\<close> stands in for
  SHA-256 (it is injective, as SHA-256 is taken to be on the inputs that occur), and
  \<open>kit_json\<close> renders a small custody record as \<open>JSON.stringify\<close> would render its fields.
\<close>

definition plain_digest :: "string \<Rightarrow> string" where
  "plain_digest s = s"

record kit =
  kit_id :: string
  location :: string

definition kit_json :: "kit \<Rightarrow> string" where
  "kit_json k = ''{kitID:'' @ kit_id k @ '',location:'' @ location k @ ''}''"

definition geneva :: kit where
  "geneva = \<lparr> kit_id = ''KIT-001'', location = ''Geneva HQ'' \<rparr>"

definition nairobi :: kit where
  "nairobi = \<lparr> kit_id = ''KIT-001'', location = ''Nairobi Hub'' \<rparr>"

definition calls3 :: "(string \<times> string \<times> kit) list" where
  "calls3 = [(''2026-02-14T09:00:00.000Z'', ''2026-02-14T09:00:00.000Z'', geneva),
             (''2026-02-14T10:00:00.000Z'', ''2026-02-14T10:00:00.000Z'', nairobi),
             (''2026-02-14T11:00:00.000Z'', ''2026-02-14T11:00:00.000Z'', geneva)]"

definition store3 :: "kit store" where
  "store3 = appendAll plain_digest kit_json calls3 []"

definition store5 :: "kit store" where
  "store5 = appendAll plain_digest kit_json
              (calls3 @ [(''2026-02-14T12:00:00.000Z'', ''2026-02-14T12:00:00.000Z'', nairobi),
                         (''2026-02-14T13:00:00.000Z'', ''2026-02-14T13:00:00.000Z'', geneva)]) []"

definition store2 :: "kit store" where
  "store2 = appendAll plain_digest kit_json (take 2 calls3) []"

definition local1 :: "kit store" where
  "local1 = appendAll plain_digest kit_json
              [(''2026-02-14T09:00:00.000Z'', ''2026-02-14T09:00:00.000Z'', geneva)] []"

definition peer1 :: "kit store" where
  "peer1 = appendAll plain_digest kit_json
              [(''2026-02-14T09:00:00.000Z'', ''2026-02-14T09:00:00.000Z'', nairobi)] []"

text \<open>The payload of block 1 with its \<open>location\<close> changed.\<close>

definition tampered_kit :: kit where
  "tampered_kit = nairobi\<lparr> location := ''Mombasa'' \<rparr>"

text \<open>A block with a sound hash, as a peer would send it.\<close>

definition mk_block ::
  "(string \<Rightarrow> string) \<Rightarrow> ('d \<Rightarrow> string) \<Rightarrow> nat \<Rightarrow> string \<Rightarrow> 'd \<Rightarrow> string \<Rightarrow> 'd block" where
  "mk_block sha256 stringify i t d p =
     \<lparr> index = i, timestamp = t, data = d, previousHash = p,
       hash = calculateHash sha256 stringify i t d p \<rparr>"

definition received_block :: "kit block" where
  "received_block = mk_block plain_digest kit_json 3 ''2026-02-14T12:00:00.000Z'' nairobi
                      (hash (snd (last store3)))"

definition conflicting_block :: "kit block" where
  "conflicting_block =
     mk_block plain_digest kit_json 1 (timestamp (snd (store3 ! 1))) tampered_kit
       (previousHash (snd (store3 ! 1)))"

definition gap_store :: "kit store" where
  "gap_store = [(5, mk_block plain_digest kit_json 5 ''2026-02-14T15:00:00.000Z'' geneva sentinel)]"

definition stale_block :: "kit block" where
  "stale_block = mk_block plain_digest kit_json 3 ''2026-02-14T12:00:00.000Z'' nairobi sentinel"

section \<open>Market Engine: pricing and pools\<close>





text \<open>
  Claim C2, as stated: a buy on an open market with \<open>amount >= pool[outcome]\<close> is rejected
  and the pools stay non-negative. \<open>buyShares\<close> has no such check: on the fresh market a
  buy of 1500 \<open>YES\<close> shares (the pool holds 1000) returns a transaction and leaves the
  \<open>YES\<close> pool at -500.
\<close>

theorem buyShares_liquidity_counterexample:
  "status test_market = OPEN
   \<and> outcomes test_market YES \<le> 1500
   \<and> \<not> isl (fst (PredictionMarket_buyShares ''t'' test_market ''user_alice'' YES 1500))
   \<and> outcomes (snd (PredictionMarket_buyShares ''t'' test_market ''user_alice'' YES 1500)) YES = - 500"
  by (simp add: test_market_def PredictionMarket_def PredictionMarket_buyShares_def Let_def)

text \<open>
  Claim C2, amended: \<open>buyShares\<close> on an open market accepts every amount; it lowers
  \<open>pool[outcome]\<close> by exactly the amount and leaves the other pool as it is, so the pool
  is negative afterwards exactly when the amount exceeds it. The only rejection is that
  of a market that is not open, and it mutates nothing.
\<close>

theorem buyShares_no_liquidity_check:
  "(status m = OPEN \<longrightarrow>
      (\<exists>t m'. PredictionMarket_buyShares now m userId outcome amount = (Inr t, m')
         \<and> outcomes m' outcome = outcomes m outcome - amount
         \<and> outcomes m' (other_outcome outcome) = outcomes m (other_outcome outcome)
         \<and> (outcomes m' outcome < 0 \<longleftrightarrow> outcomes m outcome < amount)))
   \<and> (status m \<noteq> OPEN \<longrightarrow>
        PredictionMarket_buyShares now m userId outcome amount = (Inl MarketNotOpen, m))"
  by (cases outcome) (simp_all add: PredictionMarket_buyShares_def Let_def other_outcome_def)

theorem buyShares_no_liquidity_check_witness:
  "status test_market = OPEN
   \<and> outcomes (snd (PredictionMarket_buyShares ''t'' test_market ''user_alice'' NO 300)) NO = 700
   \<and> outcomes (snd (PredictionMarket_buyShares ''t'' test_market ''user_alice'' NO 300)) YES = 1000
   \<and> status (test_market\<lparr> status := RESOLVED \<rparr>) \<noteq> OPEN
   \<and> PredictionMarket_buyShares ''t'' (test_market\<lparr> status := RESOLVED \<rparr>) ''user_alice'' NO 300
       = (Inl MarketNotOpen, test_market\<lparr> status := RESOLVED \<rparr>)"
proof -
  have h: "status test_market = OPEN" and p: "outcomes test_market NO = 1000"
    "outcomes test_market YES = 1000"
    by (simp_all add: test_market_def PredictionMarket_def)
  have c: "status (test_market\<lparr> status := RESOLVED \<rparr>) \<noteq> OPEN" by simp
  from buyShares_no_liquidity_check [of test_market "''t''" "''user_alice''" NO 300] h
  obtain t m' where "PredictionMarket_buyShares ''t'' test_market ''user_alice'' NO 300 = (Inr t, m')"
    "outcomes m' NO = outcomes test_market NO - 300"
    "outcomes m' (other_outcome NO) = outcomes test_market (other_outcome NO)"
    by blast
  moreover have "PredictionMarket_buyShares ''t'' (test_market\<lparr> status := RESOLVED \<rparr>) ''user_alice'' NO 300
       = (Inl MarketNotOpen, test_market\<lparr> status := RESOLVED \<rparr>)"
    using buyShares_no_liquidity_check [of "test_market\<lparr> status := RESOLVED \<rparr>" "''t''" "''user_alice''" NO 300] c
    by blast
  ultimately show ?thesis using h p c by (simp add: other_outcome_def)
qed






section \<open>Position Ledger: balances\<close>

lemma getBalance_total: "\<exists>v sm'. getBalance sm userId = (Inr v, sm')"
  by (simp add: getBalance_def initializeUser_def Let_def split: option.splits)



section \<open>Position Ledger: trades and settlement\<close>





lemma traded_state:
  "userBalances traded ''user_alice'' =
     Some \<lparr> credits = Num 9800, holdings = [''MKT-001'' \<mapsto> no_shares(YES := 200)] \<rparr>"
  "userBalances traded ''user_bob'' =
     Some \<lparr> credits = Num 9760, holdings = [''MKT-001'' \<mapsto> no_shares(NO := 300)] \<rparr>"
  "userStats traded ''user_alice'' =
     Some \<lparr> correctPredictions = 0, totalPredictions = 0, profit = Num 0, totalTrades = 1 \<rparr>"
  "userStats traded ''user_bob'' =
     Some \<lparr> correctPredictions = 0, totalPredictions = 0, profit = Num 0, totalTrades = 1 \<rparr>"
  "winningOutcome resolved_market = Some YES"
  "marketID resolved_market = ''MKT-001''"
proof -
  have f: "\<lfloor>(40001::rat) / 2\<rfloor> = 20000" "\<lfloor>(48001::rat) / 2\<rfloor> = 24000"
    by (simp_all add: floor_eq_iff)
  note defs = traded_def resolved_market_def after_bob_def after_alice_def two_users_def
    test_market_def ShareManager_buyShares_def PredictionMarket_buyShares_def
    PredictionMarket_def resolve_def initializeUser_def ShareManager_def calculatePrice_def
    other_outcome_def js_sub_def Let_def no_shares_def
  show "userBalances traded ''user_alice'' =
     Some \<lparr> credits = Num 9800, holdings = [''MKT-001'' \<mapsto> no_shares(YES := 200)] \<rparr>"
    by (simp add: defs f)
  show "userBalances traded ''user_bob'' =
     Some \<lparr> credits = Num 9760, holdings = [''MKT-001'' \<mapsto> no_shares(NO := 300)] \<rparr>"
    by (simp add: defs f)
  show "userStats traded ''user_alice'' =
     Some \<lparr> correctPredictions = 0, totalPredictions = 0, profit = Num 0, totalTrades = 1 \<rparr>"
    by (simp add: defs f)
  show "userStats traded ''user_bob'' =
     Some \<lparr> correctPredictions = 0, totalPredictions = 0, profit = Num 0, totalTrades = 1 \<rparr>"
    by (simp add: defs f)
  show "winningOutcome resolved_market = Some YES"
    by (simp add: defs f)
  show "marketID resolved_market = ''MKT-001''"
    by (simp add: defs f)
qed

text \<open>
  Claim C9: for a market with a winning outcome and a participant whose statistics exist
  whenever the balance does (\<open>initializeUser\<close> creates both), \<open>resolvePosition\<close> returns
  normally; it adds 1 to \<open>totalPredictions\<close> exactly when the participant held shares of
  either outcome in that market, adds 1 to \<open>correctPredictions\<close> exactly when the
  participant held shares of the winning outcome, leaves no holdings entry for the
  market, and a second call changes nothing.
\<close>

theorem resolvePosition_settles:
  assumes "winningOutcome m = Some w"
    and "userBalances sm userId = None \<or> userStats sm userId \<noteq> None"
  shows "\<exists>sm'. resolvePosition sm userId m = (Inr (), sm')
         \<and> map_option totalPredictions (userStats sm' userId)
             = map_option (\<lambda>s. totalPredictions s
                 + (if held sm userId (marketID m) YES \<or> held sm userId (marketID m) NO then 1 else 0))
                 (userStats sm userId)
         \<and> map_option correctPredictions (userStats sm' userId)
             = map_option (\<lambda>s. correctPredictions s
                 + (if held sm userId (marketID m) w then 1 else 0))
                 (userStats sm userId)
         \<and> (case userBalances sm' userId of
               None \<Rightarrow> userBalances sm userId = None
             | Some b' \<Rightarrow> holdings b' (marketID m) = None)
         \<and> resolvePosition sm' userId m = (Inr (), sm')"
proof (cases "userBalances sm userId")
  case None
  then show ?thesis by (simp add: resolvePosition_def held_def)
next
  case (Some b)
  then obtain s where s: "userStats sm userId = Some s" using assms(2) by auto
  show ?thesis
  proof (cases "holdings b (marketID m)")
    case None
    then show ?thesis using Some s by (simp add: resolvePosition_def held_def)
  next
    case (Some h)
    then show ?thesis
      using \<open>userBalances sm userId = Some b\<close> s assms(1)
      by (cases w) (auto simp add: resolvePosition_def held_def Let_def)
  qed
qed

theorem resolvePosition_settles_witness:
  "winningOutcome resolved_market = Some YES
   \<and> userStats traded ''user_alice'' \<noteq> None
   \<and> held traded ''user_alice'' (marketID resolved_market) YES
   \<and> map_option correctPredictions
        (userStats (snd (resolvePosition traded ''user_alice'' resolved_market)) ''user_alice'') = Some 1
   \<and> map_option totalPredictions
        (userStats (snd (resolvePosition traded ''user_alice'' resolved_market)) ''user_alice'') = Some 1
   \<and> userStats traded ''user_bob'' \<noteq> None
   \<and> \<not> held traded ''user_bob'' (marketID resolved_market) YES
   \<and> held traded ''user_bob'' (marketID resolved_market) NO
   \<and> map_option correctPredictions
        (userStats (snd (resolvePosition traded ''user_bob'' resolved_market)) ''user_bob'') = Some 0
   \<and> map_option totalPredictions
        (userStats (snd (resolvePosition traded ''user_bob'' resolved_market)) ''user_bob'') = Some 1"
proof -
  have w: "winningOutcome resolved_market = Some YES" by (rule traded_state)
  have a: "userBalances traded ''user_alice'' = None \<or> userStats traded ''user_alice'' \<noteq> None"
    and b: "userBalances traded ''user_bob'' = None \<or> userStats traded ''user_bob'' \<noteq> None"
    by (simp_all add: traded_state)
  have h: "held traded ''user_alice'' (marketID resolved_market) YES"
    "\<not> held traded ''user_alice'' (marketID resolved_market) NO"
    "\<not> held traded ''user_bob'' (marketID resolved_market) YES"
    "held traded ''user_bob'' (marketID resolved_market) NO"
    by (simp_all add: held_def traded_state no_shares_def)
  from resolvePosition_settles [OF w a] obtain sa where
    "resolvePosition traded ''user_alice'' resolved_market = (Inr (), sa)"
    "map_option totalPredictions (userStats sa ''user_alice'')
       = map_option (\<lambda>s. totalPredictions s
            + (if held traded ''user_alice'' (marketID resolved_market) YES
                  \<or> held traded ''user_alice'' (marketID resolved_market) NO then 1 else 0))
           (userStats traded ''user_alice'')"
    "map_option correctPredictions (userStats sa ''user_alice'')
       = map_option (\<lambda>s. correctPredictions s
            + (if held traded ''user_alice'' (marketID resolved_market) YES then 1 else 0))
           (userStats traded ''user_alice'')"
    by blast
  moreover from resolvePosition_settles [OF w b] obtain sb where
    "resolvePosition traded ''user_bob'' resolved_market = (Inr (), sb)"
    "map_option totalPredictions (userStats sb ''user_bob'')
       = map_option (\<lambda>s. totalPredictions s
            + (if held traded ''user_bob'' (marketID resolved_market) YES
                  \<or> held traded ''user_bob'' (marketID resolved_market) NO then 1 else 0))
           (userStats traded ''user_bob'')"
    "map_option correctPredictions (userStats sb ''user_bob'')
       = map_option (\<lambda>s. correctPredictions s
            + (if held traded ''user_bob'' (marketID resolved_market) YES then 1 else 0))
           (userStats traded ''user_bob'')"
    by blast
  ultimately show ?thesis using w h by (simp add: traded_state)
qed

section \<open>Chain Engine: the two loops\<close>

lemma validate_loop_iff:
  "validate_loop sha256 stringify chain i \<longleftrightarrow>
     (\<forall>j. i \<le> j \<and> j < length chain \<longrightarrow> hash_ok sha256 stringify (chain ! j) \<and> link_ok chain j)"
proof (induction sha256 stringify chain i rule: validate_loop.induct)
  case (1 sha256 stringify chain i)
  note step = validate_loop.simps [of sha256 stringify chain i]
  show ?case
  proof (cases "i < length chain")
    case False
    then show ?thesis by (auto simp: step)
  next
    case True
    let ?ok = "\<lambda>j. hash_ok sha256 stringify (chain ! j) \<and> link_ok chain j"
    have split: "(\<forall>j. i \<le> j \<and> j < length chain \<longrightarrow> ?ok j)
                 \<longleftrightarrow> ?ok i \<and> (\<forall>j. i + 1 \<le> j \<and> j < length chain \<longrightarrow> ?ok j)"
    proof -
      have "\<And>j. (i \<le> j \<and> j < length chain) = (j = i \<or> (i + 1 \<le> j \<and> j < length chain))"
        using True by auto
      then show ?thesis by (simp only:) blast
    qed
    show ?thesis
    proof (cases "?ok i")
      case False
      then show ?thesis
        unfolding split using True
        by (auto simp: step hash_ok_def link_ok_def Let_def)
    next
      case ok: True
      then have "validate_loop sha256 stringify chain i
                   = validate_loop sha256 stringify chain (i + 1)"
        using True by (auto simp: step hash_ok_def link_ok_def Let_def)
      also have "\<dots> \<longleftrightarrow> (\<forall>j. i + 1 \<le> j \<and> j < length chain \<longrightarrow> ?ok j)"
        using ok True by (intro "1.IH") (auto simp: hash_ok_def link_ok_def)
      finally show ?thesis unfolding split using ok by simp
    qed
  qed
qed

lemma validateChain_iff:
  "validateChain sha256 stringify chain \<longleftrightarrow>
     (\<forall>j < length chain. hash_ok sha256 stringify (chain ! j) \<and> link_ok chain j)"
  by (simp add: validateChain_def validate_loop_iff)


section \<open>Block Store: reading and writing files\<close>

lemma latest_scan_fold:
  assumes "fold (\<lambda>(k, _) (maxIndex, latestFile).
             if int k > maxIndex then (int k, Some k) else (maxIndex, latestFile))
          files (mx, lf) = (mx', lf')"
  shows "mx \<le> mx' \<and> (\<forall>k \<in> fst ` set files. int k \<le> mx')
         \<and> ((mx', lf') = (mx, lf) \<or> (\<exists>k \<in> fst ` set files. mx' = int k \<and> lf' = Some k))"
  using assms
proof (induction files arbitrary: mx lf)
  case Nil
  then show ?case by simp
next
  case (Cons f files)
  obtain k b where f: "f = (k, b)" by (cases f)
  show ?case
  proof (cases "int k > mx")
    case True
    then have "fold (\<lambda>(k, _) (maxIndex, latestFile).
             if int k > maxIndex then (int k, Some k) else (maxIndex, latestFile))
          files (int k, Some k) = (mx', lf')"
      using Cons.prems f by simp
    from Cons.IH [OF this] True f show ?thesis by auto
  next
    case False
    then have "fold (\<lambda>(k, _) (maxIndex, latestFile).
             if int k > maxIndex then (int k, Some k) else (maxIndex, latestFile))
          files (mx, lf) = (mx', lf')"
      using Cons.prems f by simp
    from Cons.IH [OF this] False f show ?thesis by auto
  qed
qed

lemma latest_scan_max:
  assumes "files \<noteq> []"
  shows "\<exists>k \<in> fst ` set files. snd (latest_scan files) = Some k \<and> (\<forall>k' \<in> fst ` set files. k' \<le> k)"
proof -
  obtain mx' lf' where r: "latest_scan files = (mx', lf')" by (cases "latest_scan files")
  from latest_scan_fold [OF r [unfolded latest_scan_def]]
  have a: "\<forall>k \<in> fst ` set files. int k \<le> mx'"
    and b: "(mx', lf') = (- 1, None) \<or> (\<exists>k \<in> fst ` set files. mx' = int k \<and> lf' = Some k)"
    by blast+
  obtain k0 where "k0 \<in> fst ` set files" using assms by (cases files) auto
  with a have "0 \<le> mx'" by fastforce
  with b obtain k where "k \<in> fst ` set files" "mx' = int k" "lf' = Some k" by auto
  with a r show ?thesis by auto
qed

lemma getLatestBlock_Nil [simp]: "getLatestBlock [] = None"
  by (simp add: getLatestBlock_def)

lemma getLatestBlock_max:
  assumes "files \<noteq> []"
  shows "\<exists>k l. getLatestBlock files = Some l \<and> (k, l) \<in> set files
               \<and> (\<forall>k' \<in> fst ` set files. k' \<le> k)"
proof -
  from latest_scan_max [OF assms] obtain k where k: "k \<in> fst ` set files"
    "snd (latest_scan files) = Some k" "\<forall>k' \<in> fst ` set files. k' \<le> k"
    by blast
  from k(1) obtain l where l: "map_of files k = Some l"
    by (metis domD dom_map_of_conv_image_fst)
  then have "(k, l) \<in> set files" by (rule map_of_SomeD)
  with k l assms show ?thesis by (auto simp: getLatestBlock_def)
qed

lemma update_fresh:
  "k \<notin> fst ` set files \<Longrightarrow> AList.update k v files = files @ [(k, v)]"
  by (induction files) auto

lemma insort_key_snoc:
  "f x \<le> f y \<Longrightarrow> insort_key f x (zs @ [y]) = insort_key f x zs @ [y]"
  by (induction zs) auto

lemma sort_key_snoc:
  "\<forall>x \<in> set xs. f x \<le> f y \<Longrightarrow> sort_key f (xs @ [y]) = sort_key f xs @ [y]"
proof (induction xs)
  case Nil
  then show ?case by simp
next
  case (Cons x xs)
  have "insort_key f x (sort_key f xs @ [y]) = insort_key f x (sort_key f xs) @ [y]"
    using Cons.prems by (simp add: insort_key_snoc)
  with Cons show ?case by simp
qed

section \<open>Chain Engine: appending\<close>

lemma appended_Nil [simp]: "appended []"
  by (simp add: appended_def indexed_store_def)

lemma appended_nth:
  assumes "appended files" "i < length files"
  shows "fst (files ! i) = i" "index (snd (files ! i)) = i"
proof -
  have "map fst files ! i = [0 ..< length files] ! i"
    using assms by (simp add: appended_def)
  then show k: "fst (files ! i) = i" using assms(2) by simp
  have "files ! i \<in> set files" using assms(2) by simp
  then have "index (snd (files ! i)) = fst (files ! i)"
    using assms(1) by (auto simp: appended_def indexed_store_def list_all_iff)
  with k show "index (snd (files ! i)) = i" by simp
qed

lemma getLatestBlock_appended:
  assumes "appended files"
  shows "getLatestBlock files = (if files = [] then None else Some (snd (last files)))"
proof (cases "files = []")
  case True
  then show ?thesis by simp
next
  case False
  from getLatestBlock_max [OF False] obtain k l where
    l: "getLatestBlock files = Some l" "(k, l) \<in> set files" "\<forall>k' \<in> fst ` set files. k' \<le> k"
    by blast
  from l(2) obtain i where i: "i < length files" "files ! i = (k, l)"
    by (auto simp: in_set_conv_nth)
  with appended_nth(1) [OF assms i(1)] have ik: "i = k" by simp
  have "files ! (length files - 1) \<in> set files" using False by simp
  then have "fst (files ! (length files - 1)) \<le> k" using l(3) by blast
  moreover have "fst (files ! (length files - 1)) = length files - 1"
    using False by (intro appended_nth(1) [OF assms]) simp
  ultimately have "k = length files - 1" using i(1) ik by simp
  then have "l = snd (last files)" using i ik False by (simp add: last_conv_nth)
  with l(1) False show ?thesis by simp
qed

lemma addBlock_appended:
  assumes "appended files"
  shows "addBlock sha256 stringify t1 t2 d files
           = files @ [(length files, next_block sha256 stringify t1 t2 d files)]"
proof -
  have fresh: "length files \<notin> fst ` set files"
  proof -
    have "fst ` set files = set [0 ..< length files]"
      using assms by (metis appended_def set_map)
    then show ?thesis by simp
  qed
  have idx: "files \<noteq> [] \<Longrightarrow> index (snd (last files)) + 1 = length files"
    using appended_nth(2) [OF assms, of "length files - 1"] by (simp add: last_conv_nth)
  show ?thesis
    using fresh idx
    by (simp add: addBlock_def getLatestBlock_appended [OF assms] Let_def writeBlockFile_def
          next_block_def update_fresh)
qed

lemma appended_addBlock:
  assumes "appended files"
  shows "appended (addBlock sha256 stringify t1 t2 d files)"
  using assms unfolding addBlock_appended [OF assms]
  by (simp add: appended_def indexed_store_def next_block_def Let_def)

lemma getFullChain_appended:
  assumes "appended files"
  shows "getFullChain files = map snd files"
proof -
  have "sorted (map fst files)" using assms by (simp add: appended_def)
  then show ?thesis by (simp add: getFullChain_def sort_key_id_if_sorted)
qed

lemma link_ok_snoc:
  assumes "\<forall>j < length files. link_ok (map snd files) j"
    and "files = [] \<or> previousHash b = hash (snd (last files))"
  shows "\<forall>j < length (files @ [(k, b)]). link_ok (map snd (files @ [(k, b)])) j"
proof (intro allI impI)
  fix j assume j: "j < length (files @ [(k, b)])"
  show "link_ok (map snd (files @ [(k, b)])) j"
  proof (cases "j < length files")
    case True
    then have "link_ok (map snd files) j" using assms(1) by simp
    then show ?thesis using True by (auto simp: link_ok_def nth_append)
  next
    case False
    then have jl: "j = length files" using j by simp
    show ?thesis
    proof (cases "files = []")
      case True
      then show ?thesis using jl by (simp add: link_ok_def)
    next
      case False
      then have "previousHash b = hash (snd (last files))" using assms(2) by simp
      then show ?thesis using jl False by (simp add: link_ok_def nth_append last_conv_nth)
    qed
  qed
qed

lemma appendAll_links:
  assumes "appended files" and "\<forall>j < length files. link_ok (map snd files) j"
  shows "appended (appendAll sha256 stringify calls files)
         \<and> (\<forall>j < length (appendAll sha256 stringify calls files).
               link_ok (map snd (appendAll sha256 stringify calls files)) j)"
  using assms
proof (induction calls arbitrary: files)
  case Nil
  then show ?case by simp
next
  case (Cons c calls)
  obtain t1 t2 d where c: "c = (t1, t2, d)" by (cases c)
  let ?files = "addBlock sha256 stringify t1 t2 d files"
  have a: "appended ?files" using Cons.prems(1) by (rule appended_addBlock)
  have "\<forall>j < length ?files. link_ok (map snd ?files) j"
    unfolding addBlock_appended [OF Cons.prems(1)]
    using Cons.prems(2) by (rule link_ok_snoc) (simp add: next_block_def Let_def)
  with a show ?case unfolding c by (simp add: Cons.IH)
qed

lemma appendAll_hashes:
  assumes "appended files" and "\<forall>j < length files. hash_ok sha256 stringify (snd (files ! j))"
    and "list_all (\<lambda>(t1, t2, d). t1 = t2) calls"
  shows "\<forall>j < length (appendAll sha256 stringify calls files).
           hash_ok sha256 stringify (snd (appendAll sha256 stringify calls files ! j))"
  using assms
proof (induction calls arbitrary: files)
  case Nil
  then show ?case by simp
next
  case (Cons c calls)
  obtain t1 t2 d where c: "c = (t1, t2, d)" by (cases c)
  then have eq: "t1 = t2" and rest: "list_all (\<lambda>(t1, t2, d). t1 = t2) calls"
    using Cons.prems(3) by simp_all
  let ?files = "addBlock sha256 stringify t1 t2 d files"
  have a: "appended ?files" using Cons.prems(1) by (rule appended_addBlock)
  have "\<forall>j < length ?files. hash_ok sha256 stringify (snd (?files ! j))"
    unfolding addBlock_appended [OF Cons.prems(1)]
    using Cons.prems(2) eq
    by (auto simp: nth_append hash_ok_def next_block_def Let_def less_Suc_eq)
  from Cons.IH [OF a this rest] show ?case unfolding c by simp
qed

text \<open>
  Whatever the clock reads are, every block that \<open>addBlock\<close> appends is linked to the
  block before it; and when the two reads of every call agree, the stored chain passes
  \<open>validateChain\<close>.
\<close>

lemma appendAll_chain_linked:
  "\<forall>i. 0 < i \<and> i < length (getFullChain (appendAll sha256 stringify calls []))
     \<longrightarrow> previousHash (getFullChain (appendAll sha256 stringify calls []) ! i)
          = hash (getFullChain (appendAll sha256 stringify calls []) ! (i - 1))"
proof -
  have l: "appended (appendAll sha256 stringify calls [])
         \<and> (\<forall>j < length (appendAll sha256 stringify calls []).
               link_ok (map snd (appendAll sha256 stringify calls [])) j)"
    by (rule appendAll_links) simp_all
  then show ?thesis
    by (auto simp: getFullChain_appended link_ok_def)
qed

lemma appendAll_chain_valid:
  assumes "list_all (\<lambda>(t1, t2, d). t1 = t2) calls"
  shows "validateChain sha256 stringify (getFullChain (appendAll sha256 stringify calls []))"
proof -
  have l: "appended (appendAll sha256 stringify calls [])
         \<and> (\<forall>j < length (appendAll sha256 stringify calls []).
               link_ok (map snd (appendAll sha256 stringify calls [])) j)"
    by (rule appendAll_links) simp_all
  have h: "\<forall>j < length (appendAll sha256 stringify calls []).
           hash_ok sha256 stringify (snd (appendAll sha256 stringify calls [] ! j))"
    using assms by (intro appendAll_hashes) simp_all
  show ?thesis
    using l h by (simp add: validateChain_iff getFullChain_appended)
qed

lemma length_appendAll:
  assumes "appended files"
  shows "length (appendAll sha256 stringify calls files) = length files + length calls"
  using assms
proof (induction calls arbitrary: files)
  case Nil
  then show ?case by simp
next
  case (Cons c calls)
  obtain t1 t2 d where c: "c = (t1, t2, d)" by (cases c)
  have "length (appendAll sha256 stringify calls (addBlock sha256 stringify t1 t2 d files))
          = length (addBlock sha256 stringify t1 t2 d files) + length calls"
    using Cons.prems by (intro Cons.IH appended_addBlock)
  then show ?case unfolding c using Cons.prems by (simp add: addBlock_appended)
qed

lemma appended_appendAll: "appended (appendAll sha256 stringify calls [])"
  using appendAll_links [of "[]" sha256 stringify calls] by simp

lemma length_appendAll_Nil: "length (appendAll sha256 stringify calls []) = length calls"
  using length_appendAll [of "[]" sha256 stringify calls] by simp

lemma fixtures_appended:
  "appended store3" "appended store5" "appended store2" "appended local1" "appended peer1"
  by (simp_all only: store3_def store5_def store2_def local1_def peer1_def appended_appendAll)

lemma fixtures_length:
  "length store3 = 3" "length store5 = 5" "length store2 = 2" "length local1 = 1" "length peer1 = 1"
  by (simp_all only: store3_def store5_def store2_def local1_def peer1_def length_appendAll_Nil)
     (simp_all add: calls3_def)

lemma fixtures_valid:
  "validateChain plain_digest kit_json (getFullChain store3)"
  "validateChain plain_digest kit_json (getFullChain store5)"
  "validateChain plain_digest kit_json (getFullChain store2)"
  "validateChain plain_digest kit_json (getFullChain local1)"
  "validateChain plain_digest kit_json (getFullChain peer1)"
  unfolding store3_def store5_def store2_def local1_def peer1_def
  by (rule appendAll_chain_valid, simp add: calls3_def)+

lemma appendAll_data:
  assumes "appended files" and "j < length files + length calls"
  shows "data (snd (appendAll sha256 stringify calls files ! j))
           = (if j < length files then data (snd (files ! j))
              else snd (snd (calls ! (j - length files))))"
  using assms
proof (induction calls arbitrary: files)
  case Nil
  then show ?case by simp
next
  case (Cons c calls)
  obtain t1 t2 d where c: "c = (t1, t2, d)" by (cases c)
  let ?files = "addBlock sha256 stringify t1 t2 d files"
  have a: "appended ?files" using Cons.prems(1) by (rule appended_addBlock)
  have e: "?files = files @ [(length files, next_block sha256 stringify t1 t2 d files)]"
    using Cons.prems(1) by (rule addBlock_appended)
  have "j < length ?files + length calls" using Cons.prems(2) by (simp add: e)
  from Cons.IH [OF a this]
  have "data (snd (appendAll sha256 stringify calls ?files ! j))
          = (if j < length ?files then data (snd (?files ! j))
             else snd (snd (calls ! (j - length ?files))))" .
  then show ?case
    unfolding c by (auto simp: e nth_append next_block_def Let_def less_Suc_eq nth_Cons')
qed

text \<open>
  Claim C1 says that after any run of \<open>addBlock\<close> calls on an empty store
  \<open>validateChain\<close> holds of the stored chain, each stored hash being the digest of the
  stored timestamp with the other fields. \<open>addBlock\<close> stores one clock read and hashes
  a second one: when the clock advances between the two reads and the digest tells the
  two inputs apart, the single block of the chain fails the check that \<open>validateChain\<close>
  makes on its own hash.
\<close>

theorem addBlock_clock_tick:
  assumes "calculateHash sha256 stringify 0 t2 d sentinel
             \<noteq> calculateHash sha256 stringify 0 t1 d sentinel"
  shows "\<not> validateChain sha256 stringify (getFullChain (addBlock sha256 stringify t1 t2 d []))"
proof -
  let ?b = "next_block sha256 stringify t1 t2 d []"
  have s: "addBlock sha256 stringify t1 t2 d [] = [(0, ?b)]"
    by (simp add: addBlock_appended)
  have "appended [(0, ?b)]"
    using appended_addBlock [of "[]" sha256 stringify t1 t2 d] by (simp add: s)
  then have c: "getFullChain [(0, ?b)] = [?b]"
    by (simp add: getFullChain_appended)
  have "\<not> hash_ok sha256 stringify ?b"
    using assms by (simp add: hash_ok_def next_block_def)
  then show ?thesis
    unfolding s c by (simp add: validateChain_iff)
qed

theorem addBlock_clock_tick_witness:
  "calculateHash plain_digest kit_json 0 ''2026-02-14T09:00:00.001Z'' geneva sentinel
     \<noteq> calculateHash plain_digest kit_json 0 ''2026-02-14T09:00:00.000Z'' geneva sentinel
   \<and> \<not> validateChain plain_digest kit_json
        (getFullChain (addBlock plain_digest kit_json
           ''2026-02-14T09:00:00.000Z'' ''2026-02-14T09:00:00.001Z'' geneva []))"
proof -
  have h: "calculateHash plain_digest kit_json 0 ''2026-02-14T09:00:00.001Z'' geneva sentinel
     \<noteq> calculateHash plain_digest kit_json 0 ''2026-02-14T09:00:00.000Z'' geneva sentinel"
    by (simp add: calculateHash_def plain_digest_def)
  show ?thesis using h addBlock_clock_tick [OF h] by simp
qed

section \<open>Chain Engine: replacing the chain\<close>

lemma fold_write_sorted:
  assumes "sorted_wrt (<) (map index chain)"
    and "\<forall>k \<in> fst ` set files. \<forall>b \<in> set chain. k < index b"
  shows "fold writeBlockFile chain files = files @ map (\<lambda>b. (index b, b)) chain"
  using assms
proof (induction chain arbitrary: files)
  case Nil
  then show ?case by simp
next
  case (Cons b chain)
  have fresh: "index b \<notin> fst ` set files" using Cons.prems(2) by force
  then have w: "writeBlockFile b files = files @ [(index b, b)]"
    by (simp add: writeBlockFile_def update_fresh)
  have "fold writeBlockFile chain (files @ [(index b, b)])
          = (files @ [(index b, b)]) @ map (\<lambda>b. (index b, b)) chain"
    using Cons.prems by (intro Cons.IH) auto
  then show ?case by (simp add: w)
qed

lemma getFullChain_rewritten:
  assumes "sorted_wrt (<) (map index chain)"
  shows "getFullChain (fold writeBlockFile chain (clearLedger files)) = chain"
proof -
  have "fold writeBlockFile chain (clearLedger files) = map (\<lambda>b. (index b, b)) chain"
    using fold_write_sorted [OF assms, of "[]"] by (simp add: clearLedger_def)
  moreover have "sorted (map index chain)"
    using assms by (simp add: sorted_wrt_mono_rel [of _ "(<)" "(\<le>)"])
  ultimately show ?thesis
    by (simp add: getFullChain_def sort_key_id_if_sorted comp_def)
qed

lemma appended_indices:
  assumes "appended files"
  shows "map index (getFullChain files) = [0 ..< length files]"
  using appended_nth(2) [OF assms]
  by (intro nth_equalityI) (simp_all add: getFullChain_appended [OF assms])

lemma fixtures_sorted:
  "sorted_wrt (<) (map index (getFullChain store5))"
  "sorted_wrt (<) (map index (getFullChain peer1))"
  by (simp_all add: appended_indices fixtures_appended)

lemma fixtures_chain_length:
  "length (getFullChain store3) = 3" "length (getFullChain store5) = 5"
  "length (getFullChain store2) = 2" "length (getFullChain local1) = 1"
  "length (getFullChain peer1) = 1"
  by (simp_all add: getFullChain_appended fixtures_appended fixtures_length)

text \<open>
  Claim C3, as stated: \<open>syncFromPeer\<close> accepts a remote chain only when it is strictly
  longer than the local one. \<open>syncWithPeer\<close> compares with \<open>>=\<close>: a valid chain of one
  block from the peer replaces a different local chain of one block.
\<close>

theorem syncWithPeer_equal_length_counterexample:
  "length (getFullChain peer1) = length (getFullChain local1)
   \<and> validateChain plain_digest kit_json (getFullChain peer1)
   \<and> fst (syncWithPeer plain_digest kit_json (Some (getFullChain peer1)) local1)
   \<and> getFullChain (snd (syncWithPeer plain_digest kit_json (Some (getFullChain peer1)) local1))
       = getFullChain peer1
   \<and> getFullChain peer1 \<noteq> getFullChain local1"
proof -
  have s: "syncWithPeer plain_digest kit_json (Some (getFullChain peer1)) local1
             = (True, fold writeBlockFile (getFullChain peer1) (clearLedger local1))"
    by (simp add: syncWithPeer_def fixtures_valid fixtures_chain_length)
  have r: "getFullChain (fold writeBlockFile (getFullChain peer1) (clearLedger local1))
             = getFullChain peer1"
    using fixtures_sorted(2) by (rule getFullChain_rewritten)
  have "data (snd (peer1 ! 0)) = nairobi" "data (snd (local1 ! 0)) = geneva"
    unfolding peer1_def local1_def
    by (subst appendAll_data, simp, simp, simp)+
  then have "data (getFullChain peer1 ! 0) \<noteq> data (getFullChain local1 ! 0)"
    by (simp add: getFullChain_appended fixtures_appended fixtures_length nairobi_def geneva_def)
  then have d: "getFullChain peer1 \<noteq> getFullChain local1" by auto
  show ?thesis
    using d by (simp add: s r fixtures_valid fixtures_chain_length)
qed

text \<open>
  Claim C3, amended: \<open>replaceChain\<close> accepts the candidate exactly when it is strictly
  longer than the local chain and \<open>validateChain\<close> holds of it; \<open>syncWithPeer\<close> accepts
  the chain the peer returned exactly when \<open>validateChain\<close> holds of it and it is at least
  as long as the local chain (a failed request is a rejection). On acceptance the store
  is cleared and every block of the candidate is written, in order, to the file of its
  own index, so that the stored chain is the candidate when its indices increase; on
  rejection the store is left as it was.
\<close>

theorem chain_replacement:
  "(fst (replaceChain sha256 stringify chain files)
      \<longleftrightarrow> length (getFullChain files) < length chain \<and> validateChain sha256 stringify chain)
   \<and> (fst (syncWithPeer sha256 stringify response files)
      \<longleftrightarrow> (case response of
             None \<Rightarrow> False
           | Some c \<Rightarrow> validateChain sha256 stringify c \<and> length (getFullChain files) \<le> length c))
   \<and> (fst (replaceChain sha256 stringify chain files) \<longrightarrow>
        snd (replaceChain sha256 stringify chain files) = fold writeBlockFile chain []
        \<and> (sorted_wrt (<) (map index chain) \<longrightarrow>
             getFullChain (snd (replaceChain sha256 stringify chain files)) = chain))
   \<and> (fst (syncWithPeer sha256 stringify (Some chain) files) \<longrightarrow>
        snd (syncWithPeer sha256 stringify (Some chain) files) = fold writeBlockFile chain []
        \<and> (sorted_wrt (<) (map index chain) \<longrightarrow>
             getFullChain (snd (syncWithPeer sha256 stringify (Some chain) files)) = chain))
   \<and> (\<not> fst (replaceChain sha256 stringify chain files) \<longrightarrow>
        snd (replaceChain sha256 stringify chain files) = files)
   \<and> (\<not> fst (syncWithPeer sha256 stringify response files) \<longrightarrow>
        snd (syncWithPeer sha256 stringify response files) = files)"
proof -
  have c: "clearLedger files = []" by (simp add: clearLedger_def)
  have g: "sorted_wrt (<) (map index chain) \<Longrightarrow> getFullChain (fold writeBlockFile chain []) = chain"
    using getFullChain_rewritten [of chain files] by (simp add: c)
  show ?thesis
    by (auto simp: replaceChain_def syncWithPeer_def Let_def c g split: option.splits)
qed

theorem chain_replacement_witness:
  "length (getFullChain store3) < length (getFullChain store5)
   \<and> validateChain plain_digest kit_json (getFullChain store5)
   \<and> sorted_wrt (<) (map index (getFullChain store5))
   \<and> fst (replaceChain plain_digest kit_json (getFullChain store5) store3)
   \<and> getFullChain (snd (replaceChain plain_digest kit_json (getFullChain store5) store3))
       = getFullChain store5
   \<and> fst (syncWithPeer plain_digest kit_json (Some (getFullChain store5)) store3)
   \<and> getFullChain (snd (syncWithPeer plain_digest kit_json (Some (getFullChain store5)) store3))
       = getFullChain store5
   \<and> validateChain plain_digest kit_json (getFullChain store2)
   \<and> \<not> fst (replaceChain plain_digest kit_json (getFullChain store2) store3)
   \<and> snd (replaceChain plain_digest kit_json (getFullChain store2) store3) = store3
   \<and> \<not> fst (syncWithPeer plain_digest kit_json None store3)
   \<and> snd (syncWithPeer plain_digest kit_json None store3) = store3"
proof -
  note l = fixtures_chain_length
  note v = fixtures_valid
  note r5 = chain_replacement [of plain_digest kit_json "getFullChain store5" store3
              "Some (getFullChain store5)"]
  note r2 = chain_replacement [of plain_digest kit_json "getFullChain store2" store3 None]
  have a5: "fst (replaceChain plain_digest kit_json (getFullChain store5) store3)"
    using r5 l v by simp
  have s5: "fst (syncWithPeer plain_digest kit_json (Some (getFullChain store5)) store3)"
    using r5 l v by simp
  have g5: "getFullChain (snd (replaceChain plain_digest kit_json (getFullChain store5) store3))
       = getFullChain store5"
    using r5 a5 fixtures_sorted(1) by blast
  have h5: "getFullChain (snd (syncWithPeer plain_digest kit_json (Some (getFullChain store5)) store3))
       = getFullChain store5"
    using r5 s5 fixtures_sorted(1) by blast
  have a2: "\<not> fst (replaceChain plain_digest kit_json (getFullChain store2) store3)"
    using r2 l by simp
  have n2: "\<not> fst (syncWithPeer plain_digest kit_json None store3)"
    using r2 by simp
  have u2: "snd (replaceChain plain_digest kit_json (getFullChain store2) store3) = store3"
    using r2 a2 by blast
  have w2: "snd (syncWithPeer plain_digest kit_json None store3) = store3"
    using r2 n2 by blast
  show ?thesis
    using a5 s5 g5 h5 a2 n2 u2 w2 fixtures_sorted(1) by (simp add: l v)
qed

section \<open>Gossip: receiving a block\<close>

lemma map_of_appended:
  assumes "appended files" and "i < length files"
  shows "map_of files i = Some (snd (files ! i))"
proof -
  have "distinct (map fst files)" using assms(1) by (simp add: appended_def)
  moreover have "files ! i \<in> set files" using assms(2) by simp
  moreover have "files ! i = (i, snd (files ! i))"
    using appended_nth(1) [OF assms] by (simp add: prod_eq_iff)
  ultimately show ?thesis by (metis map_of_is_SomeI)
qed

lemma store3_block1:
  "index (snd (store3 ! 1)) = 1" "data (snd (store3 ! 1)) = nairobi"
  "hash_ok plain_digest kit_json (snd (store3 ! 1))"
  "map_of store3 1 = Some (snd (store3 ! 1))"
proof -
  show "index (snd (store3 ! 1)) = 1"
    using appended_nth(2) [OF fixtures_appended(1), of 1] by (simp add: fixtures_length)
  show "data (snd (store3 ! 1)) = nairobi"
    using appendAll_data [of "[]" 1 calls3 plain_digest kit_json]
    by (simp add: store3_def [symmetric]) (simp add: calls3_def)
  have "hash_ok plain_digest kit_json (getFullChain store3 ! 1)"
    using fixtures_valid(1)
    by (simp add: validateChain_iff getFullChain_appended [OF fixtures_appended(1)] fixtures_length)
  then show "hash_ok plain_digest kit_json (snd (store3 ! 1))"
    by (simp add: getFullChain_appended [OF fixtures_appended(1)] fixtures_length)
  show "map_of store3 1 = Some (snd (store3 ! 1))"
    by (rule map_of_appended [OF fixtures_appended(1)]) (simp add: fixtures_length)
qed

text \<open>
  Claim C5: in a store whose files hold the blocks of their indices, a received block
  with a sound hash and an index above that of the latest block is accepted and written;
  a second call with the same block is accepted too and changes nothing, and exactly one
  file then holds a block at that index. A block whose index has a file with a different
  hash is rejected. A block whose index is not above that of the latest block is
  rejected, unless it is the idempotent case of a file at its index with the same hash.
  No rejection changes the store.
\<close>

theorem saveReceivedBlock_guards:
  "(indexed_store files \<and> hash_ok sha256 stringify b
      \<and> (case getLatestBlock files of None \<Rightarrow> True | Some l \<Rightarrow> index l < index b) \<longrightarrow>
      (\<exists>files'. saveReceivedBlock sha256 stringify b files = (True, files')
         \<and> files' = writeBlockFile b files
         \<and> saveReceivedBlock sha256 stringify b files' = (True, files')
         \<and> length (filter (\<lambda>(k, _). k = index b) files') = 1
         \<and> map_of files' (index b) = Some b))
   \<and> ((case map_of files (index b) of None \<Rightarrow> False | Some e \<Rightarrow> hash e \<noteq> hash b) \<longrightarrow>
        saveReceivedBlock sha256 stringify b files = (False, files))
   \<and> ((case getLatestBlock files of None \<Rightarrow> False | Some l \<Rightarrow> index b \<le> index l)
        \<and> (case map_of files (index b) of None \<Rightarrow> True | Some e \<Rightarrow> hash e \<noteq> hash b) \<longrightarrow>
        saveReceivedBlock sha256 stringify b files = (False, files))"
proof (intro conjI impI)
  assume a: "indexed_store files \<and> hash_ok sha256 stringify b
      \<and> (case getLatestBlock files of None \<Rightarrow> True | Some l \<Rightarrow> index l < index b)"
  have fresh: "index b \<notin> fst ` set files"
  proof
    assume in_keys: "index b \<in> fst ` set files"
    then have "files \<noteq> []" by auto
    from getLatestBlock_max [OF this] obtain k l where
      l: "getLatestBlock files = Some l" "(k, l) \<in> set files" "\<forall>k' \<in> fst ` set files. k' \<le> k"
      by blast
    from a l(2) have "index l = k" by (auto simp: indexed_store_def list_all_iff)
    moreover from l(3) in_keys have "index b \<le> k" by blast
    moreover from a l(1) have "index l < index b" by simp
    ultimately show False by simp
  qed
  then have none: "map_of files (index b) = None"
    by (simp add: map_of_eq_None_iff)
  have first: "saveReceivedBlock sha256 stringify b files = (True, files @ [(index b, b)])"
    using a none fresh
    by (auto simp: saveReceivedBlock_def hash_ok_def writeBlockFile_def update_fresh Let_def
          split: option.splits)
  have stored: "map_of (files @ [(index b, b)]) (index b) = Some b"
    using none by (simp add: map_add_Some_iff)
  have second: "saveReceivedBlock sha256 stringify b (files @ [(index b, b)])
                  = (True, files @ [(index b, b)])"
    using a stored by (simp add: saveReceivedBlock_def hash_ok_def Let_def)
  have "filter (\<lambda>(k, _). k = index b) files = []"
    using fresh by (force simp: filter_empty_conv)
  then have one: "length (filter (\<lambda>(k, _). k = index b) (files @ [(index b, b)])) = 1"
    by simp
  show "\<exists>files'. saveReceivedBlock sha256 stringify b files = (True, files')
         \<and> files' = writeBlockFile b files
         \<and> saveReceivedBlock sha256 stringify b files' = (True, files')
         \<and> length (filter (\<lambda>(k, _). k = index b) files') = 1
         \<and> map_of files' (index b) = Some b"
    using first second one stored fresh by (simp add: writeBlockFile_def update_fresh)
next
  assume "case map_of files (index b) of None \<Rightarrow> False | Some e \<Rightarrow> hash e \<noteq> hash b"
  then show "saveReceivedBlock sha256 stringify b files = (False, files)"
    by (auto simp: saveReceivedBlock_def Let_def split: option.splits)
next
  assume "(case getLatestBlock files of None \<Rightarrow> False | Some l \<Rightarrow> index b \<le> index l)
        \<and> (case map_of files (index b) of None \<Rightarrow> True | Some e \<Rightarrow> hash e \<noteq> hash b)"
  then show "saveReceivedBlock sha256 stringify b files = (False, files)"
    by (auto simp: saveReceivedBlock_def Let_def split: option.splits)
qed

theorem saveReceivedBlock_guards_witness:
  "indexed_store store3 \<and> hash_ok plain_digest kit_json received_block
   \<and> map_option index (getLatestBlock store3) = Some 2 \<and> index received_block = 3
   \<and> fst (saveReceivedBlock plain_digest kit_json received_block store3)
   \<and> saveReceivedBlock plain_digest kit_json received_block
        (snd (saveReceivedBlock plain_digest kit_json received_block store3))
        = (True, snd (saveReceivedBlock plain_digest kit_json received_block store3))
   \<and> length (filter (\<lambda>(k, _). k = 3)
        (snd (saveReceivedBlock plain_digest kit_json received_block store3))) = 1
   \<and> map_option hash (map_of store3 (index conflicting_block)) \<noteq> Some (hash conflicting_block)
   \<and> map_of store3 (index conflicting_block) \<noteq> None
   \<and> saveReceivedBlock plain_digest kit_json conflicting_block store3 = (False, store3)
   \<and> map_of gap_store (index stale_block) = None
   \<and> map_option index (getLatestBlock gap_store) = Some 5 \<and> index stale_block = 3
   \<and> saveReceivedBlock plain_digest kit_json stale_block gap_store = (False, gap_store)"
proof -
  have ix: "indexed_store store3" using fixtures_appended(1) by (simp add: appended_def)
  have hr: "hash_ok plain_digest kit_json received_block"
    by (simp add: received_block_def mk_block_def hash_ok_def)
  have ne: "store3 \<noteq> []" using fixtures_length(1) by auto
  have last3: "index (snd (last store3)) = 2"
    using appended_nth(2) [OF fixtures_appended(1), of 2] ne
    by (simp add: last_conv_nth fixtures_length)
  have lat: "getLatestBlock store3 = Some (snd (last store3))"
    using ne by (simp add: getLatestBlock_appended [OF fixtures_appended(1)])
  have ir: "index received_block = 3" by (simp add: received_block_def mk_block_def)
  have a: "indexed_store store3 \<and> hash_ok plain_digest kit_json received_block
      \<and> (case getLatestBlock store3 of None \<Rightarrow> True | Some l \<Rightarrow> index l < index received_block)"
    using ix hr lat last3 ir by simp
  have ic: "index conflicting_block = 1" by (simp add: conflicting_block_def mk_block_def)
  have hc: "hash (snd (store3 ! 1)) \<noteq> hash conflicting_block"
    using store3_block1(1,2,3)
    by (simp add: hash_ok_def conflicting_block_def mk_block_def calculateHash_def
          plain_digest_def kit_json_def tampered_kit_def nairobi_def)
  have b: "case map_of store3 (index conflicting_block) of None \<Rightarrow> False
           | Some e \<Rightarrow> hash e \<noteq> hash conflicting_block"
    using hc store3_block1(4) by (simp add: ic)
  have ist: "index stale_block = 3" by (simp add: stale_block_def mk_block_def)
  have gl: "getLatestBlock gap_store
              = Some (mk_block plain_digest kit_json 5 ''2026-02-14T15:00:00.000Z'' geneva sentinel)"
    by (simp add: gap_store_def getLatestBlock_def latest_scan_def)
  have gn: "map_of gap_store (index stale_block) = None"
    by (simp add: gap_store_def ist)
  have c: "(case getLatestBlock gap_store of None \<Rightarrow> False | Some l \<Rightarrow> index stale_block \<le> index l)
        \<and> (case map_of gap_store (index stale_block) of None \<Rightarrow> True
            | Some e \<Rightarrow> hash e \<noteq> hash stale_block)"
    using gn by (simp add: gl ist mk_block_def)
  from saveReceivedBlock_guards [of store3 plain_digest kit_json received_block] a
  obtain files' where f: "saveReceivedBlock plain_digest kit_json received_block store3 = (True, files')"
    "saveReceivedBlock plain_digest kit_json received_block files' = (True, files')"
    "length (filter (\<lambda>(k, _). k = index received_block) files') = 1"
    by blast
  have rb: "saveReceivedBlock plain_digest kit_json conflicting_block store3 = (False, store3)"
    using saveReceivedBlock_guards [of store3 plain_digest kit_json conflicting_block] b by blast
  have rc: "saveReceivedBlock plain_digest kit_json stale_block gap_store = (False, gap_store)"
    using saveReceivedBlock_guards [of gap_store plain_digest kit_json stale_block] c by blast
  show ?thesis
    using ix hr lat last3 ir f rb rc gn gl ist hc ic store3_block1(4)
    by (simp add: mk_block_def)
qed

section \<open>Chain Engine: tamper detection\<close>



end
